theory Spec2Isabelle
  imports Main "HOL-Library.Word" "HOL-Library.Multiset"
begin

section \<open>Data model of the polygon pipeline\<close>

text \<open>
  Go's \<open>int\<close> is a 64-bit two's complement integer on the platforms the program
  targets; comparisons are signed (\<open><s\<close>), and \<open>math.MaxInt\<close>, \<open>math.MinInt\<close>
  are the two ends of that range.
\<close>

type_synonym go_int = "64 word"

definition math_MaxInt :: go_int where
  "math_MaxInt = 0x7FFFFFFFFFFFFFFF"

definition math_MinInt :: go_int where
  "math_MinInt = 0x8000000000000000"

text \<open>
  Go's \<open>float32\<close> is kept as a type parameter \<open>'f\<close> with the operations the program
  uses on it: the constant \<open>0\<close>, rounded addition \<open>+\<close>, and the comparisons \<open><\<close> and
  \<open>\<le>\<close>. The sort \<open>{zero, plus, ord}\<close> assumes no law about them (addition need not
  be associative, the order need not be total or reflexive, as with NaN), so every
  theorem below holds for IEEE 754 binary32 in particular. The float32 value of the
  literal \<open>100\<close> in \<open>sumWeight >= 100\<close> is the parameter \<open>c100\<close>.
\<close>

definition MinInt :: "go_int \<Rightarrow> go_int \<Rightarrow> go_int" where
  "MinInt a b = (if a <s b then a else b)"

definition MaxInt :: "go_int \<Rightarrow> go_int \<Rightarrow> go_int" where
  "MaxInt a b = (if b <s a then a else b)"

definition MaxFloat32 :: "'f::ord \<Rightarrow> 'f \<Rightarrow> 'f" where
  "MaxFloat32 a b = (if a > b then a else b)"

record Point =
  X :: go_int
  Y :: go_int

record 'f WeightedPoint = Point +
  Weight :: 'f

record 'f Polygon =
  Points :: "'f WeightedPoint list"

record Bbox =
  X1 :: go_int
  Y1 :: go_int
  X2 :: go_int
  Y2 :: go_int

text \<open>A \<open>*Polygon\<close> is a \<open>'f Polygon option\<close>, \<open>nil\<close> being \<open>None\<close>.\<close>

record 'f Result =
  Bbox :: Bbox
  MaxWeight :: 'f
  HeavyPolygons :: "'f Polygon option list"

text \<open>
  The errors that travel in \<open>PolygonResult.err\<close>: the two values of \<open>ctx.Err()\<close>,
  and the \<open>fmt.Errorf\<close> messages of \<open>fetchAndProcessPolygon\<close>.
\<close>

datatype error = DeadlineExceeded | Canceled | FetchError string

record 'f PolygonResult =
  localBbox :: Bbox
  weight :: 'f
  isHeavy :: bool
  polygon :: "'f Polygon option"
  err :: "error option"

text \<open>The zero value \<open>Bbox{}\<close>.\<close>

definition Bbox_zero :: Bbox where
  "Bbox_zero = \<lparr>X1 = 0, Y1 = 0, X2 = 0, Y2 = 0\<rparr>"

text \<open>The composite literal \<open>PolygonResult{err: e}\<close>: every other field has its zero value.\<close>

definition PolygonResult_err :: "error \<Rightarrow> ('f::zero) PolygonResult" where
  "PolygonResult_err e =
     \<lparr>localBbox = Bbox_zero, weight = 0, isHeavy = False, polygon = None, err = Some e\<rparr>"

section \<open>processPolygon\<close>

text \<open>Lines 245 to 248: the running \<open>bbox\<close> widened by the point \<open>p\<close>.\<close>

definition extendBbox :: "Bbox \<Rightarrow> 'f WeightedPoint \<Rightarrow> Bbox" where
  "extendBbox bbox p =
     \<lparr>X1 = MinInt (X1 bbox) (X p), Y1 = MinInt (Y1 bbox) (Y p),
      X2 = MaxInt (X2 bbox) (X p), Y2 = MaxInt (Y2 bbox) (Y p)\<rparr>"

text \<open>
  The cancellation context is observed through \<open>ctx.Err()\<close> only. \<open>ctx i\<close> is what
  \<open>ctx.Err()\<close> returns when iteration \<open>i\<close> of the loop polls it (\<open>None\<close> for \<open>nil\<close>);
  the poll happens only when \<open>i % 1000 == 0\<close>, by the short-circuit \<open>&&\<close>. The second
  call of \<open>ctx.Err()\<close>, in the \<open>return\<close>, gives the same error: once set, the error
  of a context does not change.

  The loop \<open>for i, p := range poly.Points\<close> with its running \<open>bbox\<close> and \<open>sumWeight\<close>;
  \<open>Inl e\<close> is the early \<open>return PolygonResult{err: ctx.Err()}\<close>.
\<close>

fun processLoop ::
  "(nat \<Rightarrow> error option) \<Rightarrow> nat \<Rightarrow> ('f::plus) WeightedPoint list \<Rightarrow> Bbox \<Rightarrow> 'f
     \<Rightarrow> error + (Bbox \<times> 'f)" where
  "processLoop ctx i [] bbox sumWeight = Inr (bbox, sumWeight)"
| "processLoop ctx i (p # ps) bbox sumWeight =
     (case (if i mod 1000 = 0 then ctx i else None) of
        Some e \<Rightarrow> Inl e
      | None \<Rightarrow> processLoop ctx (Suc i) ps (extendBbox bbox p) (sumWeight + Weight p))"

definition processPolygon ::
  "'f \<Rightarrow> ('f::{zero,plus,ord}) Polygon \<Rightarrow> (nat \<Rightarrow> error option) \<Rightarrow> 'f PolygonResult" where
  "processPolygon c100 poly ctx =
     (case Points poly of
        [] \<Rightarrow>
          \<lparr>localBbox = Bbox_zero, weight = 0, isHeavy = False, polygon = Some poly,
           err = None\<rparr>
      | p0 # _ \<Rightarrow>
          (case processLoop ctx 0 (Points poly)
                  \<lparr>X1 = X p0, Y1 = Y p0, X2 = X p0, Y2 = Y p0\<rparr> 0 of
             Inl e \<Rightarrow> PolygonResult_err e
           | Inr (bbox, sumWeight) \<Rightarrow>
               \<lparr>localBbox = bbox, weight = sumWeight, isHeavy = (sumWeight \<ge> c100),
                polygon = Some poly, err = None\<rparr>))"

section \<open>collectResults\<close>

text \<open>
  The local variables of \<open>collectResults\<close>, with what it has done so far: the errors
  it logged (\<open>log.Printf\<close>) and the number of outcomes it received from \<open>results\<close>.
\<close>

record 'f agg =
  result :: "'f Result"
  processed :: go_int
  processingError :: "error option"
  logs :: "error list"
  taken :: nat

definition agg_init :: "('f::zero) agg" where
  "agg_init =
     \<lparr>result = \<lparr>Bbox = \<lparr>X1 = math_MaxInt, Y1 = math_MaxInt, X2 = math_MinInt, Y2 = math_MinInt\<rparr>,
                MaxWeight = 0, HeavyPolygons = []\<rparr>,
      processed = 0, processingError = None, logs = [], taken = 0\<rparr>"

text \<open>Lines 292 to 303: one success outcome folded into the running \<open>result\<close>.\<close>

definition foldResult :: "('f::ord) Result \<Rightarrow> 'f PolygonResult \<Rightarrow> 'f Result" where
  "foldResult res polygonResult =
     \<lparr>Bbox = \<lparr>X1 = MinInt (X1 (Bbox res)) (X1 (localBbox polygonResult)),
              Y1 = MinInt (Y1 (Bbox res)) (Y1 (localBbox polygonResult)),
              X2 = MaxInt (X2 (Bbox res)) (X2 (localBbox polygonResult)),
              Y2 = MaxInt (Y2 (Bbox res)) (Y2 (localBbox polygonResult))\<rparr>,
      MaxWeight = MaxFloat32 (MaxWeight res) (weight polygonResult),
      HeavyPolygons =
        (if isHeavy polygonResult then HeavyPolygons res @ [polygon polygonResult]
         else HeavyPolygons res)\<rparr>"

text \<open>
  How the \<open>for polygonResult := range results\<close> loop ends: by the \<open>return\<close> after
  \<open>resCh <- result\<close>, or because the channel was closed and drained. The list is what
  the channel delivers until it is closed; the loop stops reading at the send.
\<close>

datatype 'f loop_exit = Sent "'f agg" | Closed "'f agg"

fun collectLoop :: "go_int \<Rightarrow> ('f::ord) agg \<Rightarrow> 'f PolygonResult list \<Rightarrow> 'f loop_exit" where
  "collectLoop total' s [] = Closed s"
| "collectLoop total' s (polygonResult # rest) =
     (case err polygonResult of
        Some e \<Rightarrow>
          collectLoop total'
            (s\<lparr>processingError := Some e, logs := logs s @ [e], taken := Suc (taken s)\<rparr>) rest
      | None \<Rightarrow>
          (let s' = s\<lparr>result := foldResult (result s) polygonResult,
                      processed := processed s + 1, taken := Suc (taken s)\<rparr>
           in if processed s' = total' then Sent s' else collectLoop total' s' rest))"

text \<open>The three \<open>log.Fatalf\<close> calls after the loop.\<close>

datatype fatal =
    NotAllProcessed error
  | TimedOut error
  | UnknownError go_int go_int

text \<open>
  What a run of \<open>collectResults\<close> did: the values it sent on \<open>resCh\<close>, the errors it
  logged, how many outcomes it received, and the \<open>log.Fatalf\<close> it ended with, if any.
\<close>

record 'f collect_out =
  delivered :: "'f Result list"
  logged :: "error list"
  received :: nat
  fatal :: "fatal option"

text \<open>\<open>ctxErr\<close> is the value of \<open>ctx.Err()\<close> after the loop; \<open>total'\<close> is the parameter \<open>total\<close>.\<close>

definition collectResults ::
  "error option \<Rightarrow> ('f::{zero,ord}) PolygonResult list \<Rightarrow> go_int \<Rightarrow> 'f collect_out" where
  "collectResults ctxErr results total' =
     (case collectLoop total' agg_init results of
        Sent s \<Rightarrow>
          \<lparr>delivered = [result s], logged = logs s, received = taken s, fatal = None\<rparr>
      | Closed s \<Rightarrow>
          \<lparr>delivered = [], logged = logs s, received = taken s,
           fatal =
             (if processed s <s total' then
                (case processingError s of
                   Some e \<Rightarrow> Some (NotAllProcessed e)
                 | None \<Rightarrow>
                     (case ctxErr of
                        Some e \<Rightarrow> Some (TimedOut e)
                      | None \<Rightarrow> Some (UnknownError (processed s) total')))
              else None)\<rparr>)"

section \<open>The final select of main\<close>

text \<open>
  Lines 160 to 171: \<open>main\<close> waits for the deadline or for a value on \<open>resCh\<close>. The
  first branch can be taken once the context is done and ends the process with exit
  code 1; the second can be taken when \<open>collectResults\<close> sends a result, which is then
  printed as JSON. \<open>sent\<close> is the list of values sent on \<open>resCh\<close>.
\<close>

datatype 'f main_exit = ExitTimeout | ReceivedResult "'f Result"

inductive mainSelect :: "bool \<Rightarrow> 'f Result list \<Rightarrow> 'f main_exit \<Rightarrow> bool"
  for ctxDone :: bool and sent :: "'f Result list" where
  onDone: "ctxDone \<Longrightarrow> mainSelect ctxDone sent ExitTimeout"
| onResult: "sent = res # others \<Longrightarrow> mainSelect ctxDone sent (ReceivedResult res)"

code_pred mainSelect .

section \<open>Notions used to state the properties\<close>

text \<open>The success outcomes of a stream, and the errors of its failure outcomes, in order.\<close>

definition successes :: "'f PolygonResult list \<Rightarrow> 'f PolygonResult list" where
  "successes rs = filter (\<lambda>r. err r = None) rs"

definition failures :: "'f PolygonResult list \<Rightarrow> error list" where
  "failures rs = List.map_filter err rs"

text \<open>
  One iteration of the loop of \<open>collectResults\<close> up to the test \<open>processed == total\<close>:
  the state after the outcome was received and either logged or folded in.
\<close>

definition absorb :: "('f::ord) agg \<Rightarrow> 'f PolygonResult \<Rightarrow> 'f agg" where
  "absorb s polygonResult =
     (case err polygonResult of
        Some e \<Rightarrow> s\<lparr>processingError := Some e, logs := logs s @ [e], taken := Suc (taken s)\<rparr>
      | None \<Rightarrow> s\<lparr>result := foldResult (result s) polygonResult,
                   processed := processed s + 1, taken := Suc (taken s)\<rparr>)"

text \<open>A bounding box whose minimum corner is not beyond its maximum corner.\<close>

definition valid_box :: "Bbox \<Rightarrow> bool" where
  "valid_box b \<longleftrightarrow> X1 b \<le>s X2 b \<and> Y1 b \<le>s Y2 b"

section \<open>Example inputs\<close>

text \<open>
  Concrete inputs on which the theorems are instantiated, with weights that float32
  represents and adds exactly (small integers), so that \<open>int\<close> stands for float32 on
  them: a context that never fires, the polygon of README.md (weight 109), a light
  polygon and a polygon of negative weight.
\<close>

definition quiet :: "nat \<Rightarrow> error option" where
  "quiet = (\<lambda>_. None)"

definition polySquare :: "int Polygon" where
  "polySquare = \<lparr>Points = [\<lparr>X = 0, Y = 10, Weight = 100\<rparr>, \<lparr>X = 10, Y = 10, Weight = 2\<rparr>,
                           \<lparr>X = 10, Y = 0, Weight = 3\<rparr>, \<lparr>X = 0, Y = 0, Weight = 4\<rparr>]\<rparr>"

definition polyLight :: "int Polygon" where
  "polyLight = \<lparr>Points = [\<lparr>X = 20, Y = - 3, Weight = 50\<rparr>]\<rparr>"

definition polyNegative :: "int Polygon" where
  "polyNegative = \<lparr>Points = [\<lparr>X = 5, Y = 5, Weight = - 1\<rparr>]\<rparr>"

section \<open>Properties of processPolygon\<close>

lemma processLoop_step_poll:
  "i mod 1000 = 0 \<Longrightarrow> ctx i = Some e \<Longrightarrow> processLoop ctx i (p # ps) b s = Inl e"
  by simp

lemma processLoop_step_go:
  "i mod 1000 \<noteq> 0 \<or> ctx i = None \<Longrightarrow>
   processLoop ctx i (p # ps) b s = processLoop ctx (Suc i) ps (extendBbox b p) (s + Weight p)"
  by auto

lemma processLoop_Inr:
  "processLoop ctx i ps b s = Inr (b', s') \<Longrightarrow>
     b' = foldl extendBbox b ps \<and> s' = foldl (+) s (map Weight ps)"
proof (induction ps arbitrary: i b s)
  case Nil
  then show ?case by simp
next
  case (Cons p ps)
  show ?case
  proof (cases "i mod 1000 = 0 \<and> ctx i \<noteq> None")
    case True
    then obtain e where "ctx i = Some e" by auto
    with True Cons.prems show ?thesis by (simp add: processLoop_step_poll del: processLoop.simps)
  next
    case False
    then have "i mod 1000 \<noteq> 0 \<or> ctx i = None" by simp
    from Cons.prems[unfolded processLoop_step_go[of i ctx p ps b s, OF this]] Cons.IH
    show ?thesis by (simp del: processLoop.simps)
  qed
qed

lemma processLoop_Inl_ctx:
  "processLoop ctx i ps b s = Inl e \<Longrightarrow>
     \<exists>j<length ps. (i + j) mod 1000 = 0 \<and> ctx (i + j) = Some e"
proof (induction ps arbitrary: i b s)
  case Nil
  then show ?case by simp
next
  case (Cons p ps)
  show ?case
  proof (cases "i mod 1000 = 0 \<and> ctx i \<noteq> None")
    case True
    then obtain e' where e': "ctx i = Some e'" by auto
    with True Cons.prems have "e' = e" by (simp add: processLoop_step_poll del: processLoop.simps)
    with True e' have "0 < length (p # ps) \<and> (i + 0) mod 1000 = 0 \<and> ctx (i + 0) = Some e"
      by simp
    then show ?thesis by (rule exI[of _ 0])
  next
    case False
    then have "i mod 1000 \<noteq> 0 \<or> ctx i = None" by simp
    from Cons.prems[unfolded processLoop_step_go[of i ctx p ps b s, OF this]]
    have "\<exists>j<length ps. (Suc i + j) mod 1000 = 0 \<and> ctx (Suc i + j) = Some e"
      by (rule Cons.IH)
    then obtain k where k: "k < length ps \<and> (Suc i + k) mod 1000 = 0 \<and> ctx (Suc i + k) = Some e"
      by (elim exE)
    then have "Suc k < length (p # ps) \<and> (i + Suc k) mod 1000 = 0 \<and> ctx (i + Suc k) = Some e"
      by simp
    then show ?thesis by (rule exI[of _ "Suc k"])
  qed
qed

lemma processLoop_poll_Inl:
  "j < length ps \<Longrightarrow> (i + j) mod 1000 = 0 \<Longrightarrow> ctx (i + j) \<noteq> None \<Longrightarrow>
     \<exists>e. processLoop ctx i ps b s = Inl e"
proof (induction ps arbitrary: i j b s)
  case Nil
  then show ?case by simp
next
  case (Cons p ps)
  show ?case
  proof (cases "i mod 1000 = 0 \<and> ctx i \<noteq> None")
    case True
    then obtain e where "ctx i = Some e" by auto
    with True have "processLoop ctx i (p # ps) b s = Inl e" by (simp only: processLoop_step_poll)
    then show ?thesis by (rule exI)
  next
    case False
    then have go: "i mod 1000 \<noteq> 0 \<or> ctx i = None" by simp
    have "j \<noteq> 0"
    proof
      assume "j = 0"
      with Cons.prems have "i mod 1000 = 0 \<and> ctx i \<noteq> None" by simp
      with False show False ..
    qed
    then obtain k where jk: "j = Suc k" by (cases j) simp_all
    with Cons.prems have "k < length ps" "(Suc i + k) mod 1000 = 0" "ctx (Suc i + k) \<noteq> None"
      by simp_all
    from Cons.IH[OF this] show ?thesis
      unfolding processLoop_step_go[of i ctx p ps b s, OF go] .
  qed
qed

lemma processPolygon_Nil:
  "Points poly = [] \<Longrightarrow>
     processPolygon c100 poly ctx =
       \<lparr>localBbox = Bbox_zero, weight = 0, isHeavy = False, polygon = Some poly, err = None\<rparr>"
  by (simp add: processPolygon_def)

lemma processPolygon_Inl:
  "Points poly = p0 # ps \<Longrightarrow>
   processLoop ctx 0 (p0 # ps) \<lparr>X1 = X p0, Y1 = Y p0, X2 = X p0, Y2 = Y p0\<rparr> 0 = Inl e \<Longrightarrow>
     processPolygon c100 poly ctx = PolygonResult_err e"
  by (simp add: processPolygon_def del: processLoop.simps)

lemma processPolygon_Inr:
  "Points poly = p0 # ps \<Longrightarrow>
   processLoop ctx 0 (p0 # ps) \<lparr>X1 = X p0, Y1 = Y p0, X2 = X p0, Y2 = Y p0\<rparr> 0 = Inr (b, s) \<Longrightarrow>
     processPolygon c100 poly ctx =
       \<lparr>localBbox = b, weight = s, isHeavy = (c100 \<le> s), polygon = Some poly, err = None\<rparr>"
  by (simp add: processPolygon_def del: processLoop.simps)

text \<open>The three ways \<open>processPolygon\<close> returns.\<close>

lemma processPolygon_cases:
  fixes poly :: "('f::{zero,plus,ord}) Polygon"
  obtains
    (empty) "Points poly = []"
      "processPolygon c100 poly ctx =
         \<lparr>localBbox = Bbox_zero, weight = 0, isHeavy = False, polygon = Some poly, err = None\<rparr>"
  | (cancelled) e i where "i < length (Points poly)" "i mod 1000 = 0" "ctx i = Some e"
      "processPolygon c100 poly ctx = PolygonResult_err e"
  | (complete) p0 ps where "Points poly = p0 # ps"
      "\<forall>i<length (Points poly). i mod 1000 = 0 \<longrightarrow> ctx i = None"
      "processPolygon c100 poly ctx =
         \<lparr>localBbox = foldl extendBbox \<lparr>X1 = X p0, Y1 = Y p0, X2 = X p0, Y2 = Y p0\<rparr> (p0 # ps),
          weight = foldl (+) 0 (map Weight (p0 # ps)),
          isHeavy = (c100 \<le> foldl (+) 0 (map Weight (p0 # ps))),
          polygon = Some poly, err = None\<rparr>"
proof (cases "Points poly")
  case Nil
  then show ?thesis using processPolygon_Nil[OF Nil] by (rule empty)
next
  case (Cons p0 ps)
  let ?b0 = "\<lparr>X1 = X p0, Y1 = Y p0, X2 = X p0, Y2 = Y p0\<rparr>"
  show ?thesis
  proof (cases "processLoop ctx 0 (p0 # ps) ?b0 (0::'f)")
    case (Inl e)
    from processLoop_Inl_ctx[OF Inl] obtain j where
      "j < length (p0 # ps) \<and> (0 + j) mod 1000 = 0 \<and> ctx (0 + j) = Some e" by (elim exE)
    then have "j < length (Points poly)" "j mod 1000 = 0" "ctx j = Some e"
      using Cons by simp_all
    then show ?thesis using processPolygon_Inl[OF Cons Inl] by (rule cancelled)
  next
    case (Inr bs)
    obtain b s where bs: "bs = (b, s)" by (cases bs)
    have none: "\<forall>i<length (Points poly). i mod 1000 = 0 \<longrightarrow> ctx i = None"
    proof (intro allI impI)
      fix i assume i: "i < length (Points poly)" "i mod 1000 = 0"
      show "ctx i = None"
      proof (rule ccontr)
        assume "ctx i \<noteq> None"
        with i Cons have "\<exists>e. processLoop ctx 0 (p0 # ps) ?b0 (0::'f) = Inl e"
          by (intro processLoop_poll_Inl[of i]) simp_all
        with Inr show False by simp
      qed
    qed
    from processLoop_Inr[OF Inr[unfolded bs]]
    have "b = foldl extendBbox ?b0 (p0 # ps)" "s = foldl (+) 0 (map Weight (p0 # ps))"
      by simp_all
    with processPolygon_Inr[OF Cons Inr[unfolded bs], of c100]
    have "processPolygon c100 poly ctx =
         \<lparr>localBbox = foldl extendBbox ?b0 (p0 # ps),
          weight = foldl (+) 0 (map Weight (p0 # ps)),
          isHeavy = (c100 \<le> foldl (+) 0 (map Weight (p0 # ps))),
          polygon = Some poly, err = None\<rparr>" by simp
    with Cons none show ?thesis by (rule complete)
  qed
qed

subsection \<open>The empty polygon and cancellation\<close>

text \<open>
  C10: for a polygon with no points \<open>processPolygon\<close> returns a success outcome
  whatever the cancellation context answers, also when it has fired before the call:
  the early return for the empty sequence comes before every poll of the context.
\<close>

theorem processPolygon_empty_succeeds_when_cancelled:
  "processPolygon c100 \<lparr>Points = []\<rparr> ctx =
     \<lparr>localBbox = Bbox_zero, weight = 0, isHeavy = False, polygon = Some \<lparr>Points = []\<rparr>,
      err = None\<rparr>"
  by (simp add: processPolygon_def)

subsection \<open>The heavy flag\<close>

text \<open>
  C4: the \<open>isHeavy\<close> flag that \<open>processPolygon\<close> returns is true exactly when the
  weight it returns is at least 100 (\<open>c100 \<le> weight\<close>, Go's \<open>>=\<close> on float32), and on
  a success that weight is the sum of the point weights accumulated from 0 in sequence
  order. The only fact about float32 used is that \<open>100 \<le> 0\<close> is false.
\<close>

theorem processPolygon_isHeavy_iff:
  fixes poly :: "('f::{zero,plus,ord}) Polygon"
  assumes "\<not> c100 \<le> (0::'f)"
  shows "(isHeavy (processPolygon c100 poly ctx) \<longleftrightarrow> c100 \<le> weight (processPolygon c100 poly ctx))
       \<and> (err (processPolygon c100 poly ctx) = None \<longrightarrow>
            weight (processPolygon c100 poly ctx) = foldl (+) 0 (map Weight (Points poly)))"
proof (cases rule: processPolygon_cases[where poly=poly and ?c100.0=c100 and ctx=ctx])
  case empty
  with assms show ?thesis by simp
next
  case (cancelled e i)
  from cancelled(4) assms show ?thesis by (simp add: PolygonResult_err_def)
next
  case (complete p0 ps)
  from complete(1,3) show ?thesis by simp
qed

theorem processPolygon_isHeavy_iff_witness:
  "\<not> (100::int) \<le> 0
   \<and> isHeavy (processPolygon (100::int)
        \<lparr>Points = [\<lparr>X = 0, Y = 10, Weight = 100\<rparr>, \<lparr>X = 10, Y = 10, Weight = 2\<rparr>,
                   \<lparr>X = 10, Y = 0, Weight = 3\<rparr>, \<lparr>X = 0, Y = 0, Weight = 4\<rparr>]\<rparr> (\<lambda>_. None))
   \<and> isHeavy (processPolygon (100::int) \<lparr>Points = [\<lparr>X = 1, Y = 1, Weight = 100\<rparr>]\<rparr> (\<lambda>_. None))
   \<and> \<not> isHeavy (processPolygon (100::int)
        \<lparr>Points = [\<lparr>X = 1, Y = 1, Weight = 90\<rparr>, \<lparr>X = 2, Y = 2, Weight = 9\<rparr>]\<rparr> (\<lambda>_. None))"
proof -
  have h: "\<not> (100::int) \<le> 0" by simp
  let ?A = "\<lparr>Points = [\<lparr>X = 0, Y = 10, Weight = 100\<rparr>, \<lparr>X = 10, Y = 10, Weight = 2\<rparr>,
                   \<lparr>X = 10, Y = 0, Weight = 3\<rparr>, \<lparr>X = 0::go_int, Y = 0::go_int, Weight = 4::int\<rparr>]\<rparr>"
  let ?B = "\<lparr>Points = [\<lparr>X = 1::go_int, Y = 1::go_int, Weight = 100::int\<rparr>]\<rparr>"
  let ?C = "\<lparr>Points = [\<lparr>X = 1, Y = 1, Weight = 90\<rparr>, \<lparr>X = 2::go_int, Y = 2::go_int, Weight = 9::int\<rparr>]\<rparr>"
  have a: "weight (processPolygon 100 ?A (\<lambda>_. None)) = 109"
    by (simp add: processPolygon_def)
  have b: "weight (processPolygon 100 ?B (\<lambda>_. None)) = 100"
    by (simp add: processPolygon_def)
  have c: "weight (processPolygon 100 ?C (\<lambda>_. None)) = 99"
    by (simp add: processPolygon_def)
  from processPolygon_isHeavy_iff[OF h, of ?A "\<lambda>_. None"]
       processPolygon_isHeavy_iff[OF h, of ?B "\<lambda>_. None"]
       processPolygon_isHeavy_iff[OF h, of ?C "\<lambda>_. None"]
  show ?thesis unfolding a b c by simp
qed

subsection \<open>Cancellation never yields a partial result\<close>

text \<open>
  C5: \<open>processPolygon\<close> returns an error outcome exactly when some poll of the context,
  made at an index divisible by 1000, finds it cancelled. That outcome carries the
  error of the context and nothing else: zero bounding box, zero weight, not heavy, no
  polygon. A success outcome carries the weight and the bounding box of the whole
  point sequence, never of a prefix.
\<close>

theorem processPolygon_cancelled_no_partial:
  fixes poly :: "('f::{zero,plus,ord}) Polygon" and c100 :: 'f and ctx :: "nat \<Rightarrow> error option"
  defines "r \<equiv> processPolygon c100 poly ctx"
  shows "(err r \<noteq> None \<longleftrightarrow> (\<exists>i<length (Points poly). i mod 1000 = 0 \<and> ctx i \<noteq> None))
       \<and> (\<forall>e. err r = Some e \<longrightarrow>
             (\<exists>i<length (Points poly). i mod 1000 = 0 \<and> ctx i = Some e)
             \<and> localBbox r = Bbox_zero \<and> weight r = 0 \<and> \<not> isHeavy r \<and> polygon r = None)
       \<and> (err r = None \<longrightarrow>
             weight r = foldl (+) 0 (map Weight (Points poly))
             \<and> (\<forall>p0 ps. Points poly = p0 # ps \<longrightarrow>
                  localBbox r =
                    foldl extendBbox \<lparr>X1 = X p0, Y1 = Y p0, X2 = X p0, Y2 = Y p0\<rparr> (p0 # ps)))"
proof (cases rule: processPolygon_cases[where poly=poly and ?c100.0=c100 and ctx=ctx])
  case empty
  then show ?thesis by (simp add: r_def)
next
  case (cancelled e i)
  from cancelled(1-3) have "i < length (Points poly) \<and> i mod 1000 = 0 \<and> ctx i = Some e"
    by (intro conjI)
  then have some: "\<exists>i<length (Points poly). i mod 1000 = 0 \<and> ctx i = Some e"
    by (rule exI)
  from cancelled(1-3) have "i < length (Points poly) \<and> i mod 1000 = 0 \<and> ctx i \<noteq> None"
    by (intro conjI) simp_all
  then have any: "\<exists>i<length (Points poly). i mod 1000 = 0 \<and> ctx i \<noteq> None"
    by (rule exI)
  have fields: "err r = Some e" "localBbox r = Bbox_zero" "weight r = 0" "\<not> isHeavy r"
    "polygon r = None"
    using cancelled(4) by (simp_all add: r_def PolygonResult_err_def)
  show ?thesis
    using some any by (simp only: fields) simp
next
  case (complete p0 ps)
  have none: "\<not> (\<exists>i<length (Points poly). i mod 1000 = 0 \<and> ctx i \<noteq> None)"
  proof
    assume "\<exists>i<length (Points poly). i mod 1000 = 0 \<and> ctx i \<noteq> None"
    then obtain i where "i < length (Points poly) \<and> i mod 1000 = 0 \<and> ctx i \<noteq> None"
      by (elim exE)
    with complete(2)[rule_format, of i] show False by simp
  qed
  have fields: "err r = None" "weight r = foldl (+) 0 (map Weight (Points poly))"
    "localBbox r = foldl extendBbox \<lparr>X1 = X p0, Y1 = Y p0, X2 = X p0, Y2 = Y p0\<rparr> (p0 # ps)"
    using complete(1,3) by (simp_all add: r_def)
  show ?thesis
    using none complete(1) by (simp only: fields) simp
qed

theorem processPolygon_cancelled_no_partial_witness:
  "(\<exists>i<length [\<lparr>X = 3, Y = 4, Weight = 7\<rparr>, \<lparr>X = 5::go_int, Y = 6::go_int, Weight = 8::int\<rparr>].
      i mod 1000 = 0 \<and> (\<lambda>_. Some DeadlineExceeded) i \<noteq> None)
   \<and> processPolygon (100::int) \<lparr>Points = [\<lparr>X = 3, Y = 4, Weight = 7\<rparr>, \<lparr>X = 5, Y = 6, Weight = 8\<rparr>]\<rparr>
        (\<lambda>_. Some DeadlineExceeded) = PolygonResult_err DeadlineExceeded
   \<and> processPolygon (100::int) \<lparr>Points = [\<lparr>X = 3, Y = 4, Weight = 7\<rparr>, \<lparr>X = 5, Y = 6, Weight = 8\<rparr>]\<rparr>
        (\<lambda>_. None) =
       \<lparr>localBbox = \<lparr>X1 = 3, Y1 = 4, X2 = 5, Y2 = 6\<rparr>, weight = 15, isHeavy = False,
        polygon = Some \<lparr>Points = [\<lparr>X = 3, Y = 4, Weight = 7\<rparr>, \<lparr>X = 5, Y = 6, Weight = 8\<rparr>]\<rparr>,
        err = None\<rparr>"
proof -
  let ?pts = "[\<lparr>X = 3, Y = 4, Weight = 7\<rparr>, \<lparr>X = 5::go_int, Y = 6::go_int, Weight = 8::int\<rparr>]"
  let ?fired = "\<lambda>_::nat. Some DeadlineExceeded"
  let ?quiet = "\<lambda>_::nat. None :: error option"
  have poll: "\<exists>i<length ?pts. i mod 1000 = 0 \<and> ?fired i \<noteq> None"
    by (rule exI[of _ 0]) simp
  have e1: "err (processPolygon (100::int) \<lparr>Points = ?pts\<rparr> ?fired) = Some DeadlineExceeded"
    by (simp add: processPolygon_def PolygonResult_err_def)
  have e2: "err (processPolygon (100::int) \<lparr>Points = ?pts\<rparr> ?quiet) = None"
    by (simp add: processPolygon_def PolygonResult_err_def)
  have p2: "polygon (processPolygon (100::int) \<lparr>Points = ?pts\<rparr> ?quiet) = Some \<lparr>Points = ?pts\<rparr>"
       "isHeavy (processPolygon (100::int) \<lparr>Points = ?pts\<rparr> ?quiet) = False"
    by (simp_all add: processPolygon_def PolygonResult_err_def)
  from processPolygon_cancelled_no_partial[of 100 "\<lparr>Points = ?pts\<rparr>" ?fired] e1
  have "processPolygon (100::int) \<lparr>Points = ?pts\<rparr> ?fired = PolygonResult_err DeadlineExceeded"
    by (intro PolygonResult.equality) (simp_all add: PolygonResult_err_def)
  moreover
  from processPolygon_cancelled_no_partial[of 100 "\<lparr>Points = ?pts\<rparr>" ?quiet] e2 p2
  have "processPolygon (100::int) \<lparr>Points = ?pts\<rparr> ?quiet =
       \<lparr>localBbox = \<lparr>X1 = 3, Y1 = 4, X2 = 5, Y2 = 6\<rparr>, weight = 15, isHeavy = False,
        polygon = Some \<lparr>Points = ?pts\<rparr>, err = None\<rparr>"
    by (intro PolygonResult.equality) (simp_all add: extendBbox_def MinInt_def MaxInt_def)
  ultimately show ?thesis using poll by simp
qed

section \<open>Machine integers\<close>

lemma sint_MinInt: "sint (MinInt a b) = min (sint a) (sint b)"
  by (auto simp: MinInt_def word_sless_alt min_def)

lemma sint_MaxInt: "sint (MaxInt a b) = max (sint a) (sint b)"
  by (auto simp: MaxInt_def word_sless_alt max_def)

lemma sint_le_math_MaxInt: "sint (x::go_int) \<le> sint math_MaxInt"
  using sint_lt[of x] by (simp add: math_MaxInt_def)

lemma sint_ge_math_MinInt: "sint math_MinInt \<le> sint (x::go_int)"
  using sint_ge[of x] by (simp add: math_MinInt_def)

lemma sint_add_nat:
  fixes w :: go_int
  assumes "0 \<le> sint w" and "sint w + int n < 2 ^ 63"
  shows "sint (w + of_nat n) = sint w + int n"
proof -
  have n: "int n < 2 ^ 63" using assms by linarith
  have "sint (of_nat n :: go_int) = signed_take_bit 63 (int n)"
    by (simp add: signed_of_nat)
  also have "\<dots> = int n"
    using n by (intro signed_take_bit_int_eq_self) simp_all
  finally have sn: "sint (of_nat n :: go_int) = int n" .
  have "sint (w + of_nat n) = signed_take_bit 63 (sint w + sint (of_nat n :: go_int))"
    by (simp add: sint_word_ariths)
  also have "\<dots> = signed_take_bit 63 (sint w + int n)" by (simp only: sn)
  also have "\<dots> = sint w + int n"
    using assms by (intro signed_take_bit_int_eq_self) simp_all
  finally show ?thesis .
qed

lemma sint_succ:
  fixes w :: go_int
  assumes "0 \<le> sint w" and "sint w + 1 < 2 ^ 63"
  shows "sint (w + 1) = sint w + 1"
  using sint_add_nat[of w 1] assms by simp

section \<open>The loop of collectResults\<close>

lemma successes_simps [simp]:
  "successes [] = []"
  "successes (r # rs) = (if err r = None then r # successes rs else successes rs)"
  "successes (rs @ rs') = successes rs @ successes rs'"
  by (simp_all add: successes_def)

lemma failures_simps [simp]:
  "failures [] = []"
  "failures (r # rs) = (case err r of None \<Rightarrow> failures rs | Some e \<Rightarrow> e # failures rs)"
  by (simp_all add: failures_def List.map_filter_simps split: option.splits)

lemma failures_append [simp]: "failures (rs @ rs') = failures rs @ failures rs'"
  by (induction rs) (simp_all split: option.splits)

lemma collectLoop_Cons:
  "collectLoop total' s (r # rest) =
     (if err r = None \<and> processed s + 1 = total' then Sent (absorb s r)
      else collectLoop total' (absorb s r) rest)"
  by (cases "err r") (simp_all add: absorb_def Let_def)

lemma result_absorb_all: "result (foldl absorb s rs) = foldl foldResult (result s) (successes rs)"
  by (induction rs arbitrary: s) (simp_all add: absorb_def split: option.splits)

lemma processed_absorb_all:
  "processed (foldl absorb s rs) = processed s + of_nat (length (successes rs))"
  by (induction rs arbitrary: s) (simp_all add: absorb_def split: option.splits)

lemma taken_absorb_all: "taken (foldl absorb s rs) = taken s + length rs"
  by (induction rs arbitrary: s) (simp_all add: absorb_def split: option.splits)

lemma logs_absorb_all: "logs (foldl absorb s rs) = logs s @ failures rs"
  by (induction rs arbitrary: s) (simp_all add: absorb_def split: option.splits)

lemma processingError_absorb_all:
  "processingError (foldl absorb s rs) =
     (if failures rs = [] then processingError s else Some (last (failures rs)))"
  by (induction rs arbitrary: s) (simp_all add: absorb_def split: option.splits)

lemma length_successes_le: "length (successes rs) \<le> length rs"
  by (simp add: successes_def)

text \<open>No completion while the counter stays away from \<open>total\<close>.\<close>

lemma collectLoop_no_trigger:
  assumes "0 \<le> sint (processed s)"
    and "sint (processed s) + int (length rs) < 2 ^ 63"
    and "sint total' \<le> sint (processed s) \<or>
         sint (processed s) + int (length (successes rs)) < sint total'"
  shows "collectLoop total' s (rs @ rest) = collectLoop total' (foldl absorb s rs) rest"
  using assms
proof (induction rs arbitrary: s)
  case Nil
  then show ?case by simp
next
  case (Cons r rs)
  show ?case
  proof (cases "err r")
    case (Some e)
    then have p: "processed (absorb s r) = processed s" by (simp add: absorb_def)
    have "collectLoop total' (absorb s r) (rs @ rest) =
          collectLoop total' (foldl absorb (absorb s r) rs) rest"
      using Cons.prems Some by (intro Cons.IH) (simp_all add: p)
    with Some show ?thesis by (simp add: collectLoop_Cons del: collectLoop.simps)
  next
    case None
    then have p: "processed (absorb s r) = processed s + 1" by (simp add: absorb_def)
    have s1: "sint (processed s + 1) = sint (processed s) + 1"
      using Cons.prems by (intro sint_succ) simp_all
    have ne: "processed s + 1 \<noteq> total'"
    proof
      assume "processed s + 1 = total'"
      then have "sint total' = sint (processed s) + 1" using s1 by simp
      with Cons.prems(3) None show False by simp
    qed
    have a: "0 \<le> sint (processed (absorb s r))"
      using Cons.prems(1) by (simp add: p s1)
    have b: "sint (processed (absorb s r)) + int (length rs) < 2 ^ 63"
      using Cons.prems(2) by (simp add: p s1)
    have c: "sint total' \<le> sint (processed (absorb s r)) \<or>
         sint (processed (absorb s r)) + int (length (successes rs)) < sint total'"
      using Cons.prems(3) None unfolding p s1 by simp linarith
    have "collectLoop total' (absorb s r) (rs @ rest) =
          collectLoop total' (foldl absorb (absorb s r) rs) rest"
      using a b c by (rule Cons.IH)
    with None ne show ?thesis by (simp add: collectLoop_Cons del: collectLoop.simps)
  qed
qed

lemma collectLoop_trigger:
  assumes "0 \<le> sint (processed s)"
    and "sint (processed s) + int (length pre) + 1 < 2 ^ 63"
    and "err r = None"
    and "sint total' = sint (processed s) + int (length (successes pre)) + 1"
  shows "collectLoop total' s (pre @ r # post) = Sent (absorb (foldl absorb s pre) r)"
proof -
  have le: "int (length (successes pre)) \<le> int (length pre)"
    using length_successes_le[of pre] by simp
  have "collectLoop total' s (pre @ r # post) = collectLoop total' (foldl absorb s pre) (r # post)"
    using assms by (intro collectLoop_no_trigger) simp_all
  moreover have "sint (processed (foldl absorb s pre)) = sint (processed s) + int (length (successes pre))"
    unfolding processed_absorb_all using assms le by (intro sint_add_nat) simp_all
  then have "sint (processed (foldl absorb s pre) + 1) = sint total'"
    using assms le by (subst sint_succ) simp_all
  then have "processed (foldl absorb s pre) + 1 = total'" by (rule signed_word_eqI)
  ultimately show ?thesis using assms(3) by (simp add: collectLoop_Cons del: collectLoop.simps)
qed

lemma nth_success_split:
  "n < length (successes rs) \<Longrightarrow>
     \<exists>pre r post. rs = pre @ r # post \<and> err r = None \<and> length (successes pre) = n"
proof (induction rs arbitrary: n)
  case Nil
  then show ?case by simp
next
  case (Cons a rs)
  show ?case
  proof (cases "err a = None \<and> n = 0")
    case True
    then have "a # rs = [] @ a # rs \<and> err a = None \<and> length (successes []) = n" by simp
    then show ?thesis by blast
  next
    case False
    define m where "m = (if err a = None then n - 1 else n)"
    have "m < length (successes rs)" using Cons.prems False by (auto simp: m_def split: if_splits)
    from Cons.IH[OF this] obtain pre r post where
      "rs = pre @ r # post" "err r = None" "length (successes pre) = m" by blast
    then have "a # rs = (a # pre) @ r # post \<and> err r = None \<and> length (successes (a # pre)) = n"
      using False by (auto simp: m_def)
    then show ?thesis by blast
  qed
qed

section \<open>Properties of collectResults\<close>

lemmas eval_simps = collectResults_def agg_init_def foldResult_def processPolygon_def
  extendBbox_def MinInt_def MaxInt_def MaxFloat32_def math_MaxInt_def math_MinInt_def
  PolygonResult_err_def Bbox_zero_def quiet_def polySquare_def polyLight_def polyNegative_def
  word_sless_alt

lemma agg_init_fields:
  "processed (agg_init :: ('f::zero) agg) = 0" "processingError (agg_init :: 'f agg) = None"
  "logs (agg_init :: 'f agg) = []" "taken (agg_init :: 'f agg) = 0"
  by (simp_all add: agg_init_def)

text \<open>
  What \<open>collectResults\<close> does on a stream, by whether the counter reaches \<open>total\<close>:
  it does when \<open>total\<close> is between 1 and the number of success outcomes.
\<close>

lemma collectResults_sent:
  fixes pre :: "('f::{zero,ord}) PolygonResult list"
  assumes len: "int (length pre) + 1 < 2 ^ 63"
    and r: "err r = None"
    and n: "sint total' = int (length (successes pre)) + 1"
  shows "collectResults ctxErr (pre @ r # post) total' =
           \<lparr>delivered = [foldl foldResult (result agg_init) (successes (pre @ [r]))],
            logged = failures pre, received = Suc (length pre), fatal = None\<rparr>"
proof -
  have "collectLoop total' (agg_init :: 'f agg) (pre @ r # post) =
          Sent (absorb (foldl absorb agg_init pre) r)"
    using len r n by (intro collectLoop_trigger) (simp_all add: agg_init_fields)
  also have "absorb (foldl absorb (agg_init :: 'f agg) pre) r = foldl absorb agg_init (pre @ [r])"
    by simp
  finally have loop: "collectLoop total' (agg_init :: 'f agg) (pre @ r # post) =
          Sent (foldl absorb agg_init (pre @ [r]))" .
  have "failures (pre @ [r]) = failures pre" using r by simp
  then show ?thesis
    unfolding collectResults_def loop
    by (simp add: result_absorb_all logs_absorb_all taken_absorb_all agg_init_fields
        del: foldl_append successes_simps failures_simps failures_append)
qed

lemma collectResults_closed:
  fixes rs :: "('f::{zero,ord}) PolygonResult list"
  assumes len: "int (length rs) < 2 ^ 63"
    and n: "sint total' \<le> 0 \<or> int (length (successes rs)) < sint total'"
  shows "collectResults ctxErr rs total' =
           \<lparr>delivered = [], logged = failures rs, received = length rs,
            fatal =
              (if int (length (successes rs)) < sint total' then
                 (if failures rs \<noteq> [] then Some (NotAllProcessed (last (failures rs)))
                  else case ctxErr of
                         Some e \<Rightarrow> Some (TimedOut e)
                       | None \<Rightarrow> Some (UnknownError (of_nat (length (successes rs))) total'))
               else None)\<rparr>"
proof -
  have "collectLoop total' (agg_init :: 'f agg) (rs @ []) =
          collectLoop total' (foldl absorb agg_init rs) []"
    using len n by (intro collectLoop_no_trigger) (simp_all add: agg_init_fields)
  then have loop: "collectLoop total' (agg_init :: 'f agg) rs = Closed (foldl absorb agg_init rs)"
    by simp
  have le: "int (length (successes rs)) \<le> int (length rs)"
    using length_successes_le[of rs] by simp
  have "sint (processed (agg_init :: 'f agg) + of_nat (length (successes rs))) =
          sint (processed (agg_init :: 'f agg)) + int (length (successes rs))"
    using len le by (intro sint_add_nat) (simp_all add: agg_init_fields)
  then have p: "sint (of_nat (length (successes rs)) :: go_int) = int (length (successes rs))"
    by (simp add: agg_init_fields)
  have lt: "(of_nat (length (successes rs)) :: go_int) <s total' \<longleftrightarrow>
              int (length (successes rs)) < sint total'"
    by (simp only: word_sless_alt p)
  show ?thesis
    unfolding collectResults_def loop
    by (simp add: lt logs_absorb_all taken_absorb_all processingError_absorb_all
        processed_absorb_all agg_init_fields split: option.splits)
qed

lemma all_successes_if_length:
  "length (successes rs) = length rs \<Longrightarrow> \<forall>r\<in>set rs. err r = None"
proof (rule ccontr)
  assume eq: "length (successes rs) = length rs" and "\<not> (\<forall>r\<in>set rs. err r = None)"
  then obtain r where "r \<in> set rs" "\<not> err r = None" by blast
  then have "length (filter (\<lambda>r. err r = None) rs) < length rs" by (rule length_filter_less)
  with eq show False by (simp add: successes_def)
qed

subsection \<open>Delivery of the result\<close>

text \<open>
  C6: on every stream of outcomes (shorter than \<open>2^63\<close>, so that the counter cannot
  wrap) \<open>collectResults\<close> sends at most one Result. It sends one exactly when the
  stream holds at least \<open>total\<close> success outcomes, \<open>total\<close> being at least 1; it does so
  on receiving the success outcome that brings the counter to \<open>total\<close>, which is the last
  outcome it receives: the run is the same whatever follows in the stream, closed or
  not. The outcomes counted and folded into the Result are success outcomes only,
  \<open>total\<close> of them; and when the stream has at most \<open>total\<close> outcomes, as in the
  pipeline (one outcome per dispatched index), a delivery means that no outcome of
  the stream failed.
\<close>

theorem collectResults_delivers_once_at_total:
  fixes rs :: "('f::{zero,ord}) PolygonResult list"
    and ctxErr :: "error option" and total' :: go_int
  defines "out \<equiv> collectResults ctxErr rs total'"
  defines "k \<equiv> received (collectResults ctxErr rs total')"
  assumes len: "int (length rs) < 2 ^ 63"
  shows "length (delivered out) \<le> 1
       \<and> (delivered out \<noteq> [] \<longleftrightarrow> 1 \<le> sint total' \<and> sint total' \<le> int (length (successes rs)))
       \<and> (delivered out \<noteq> [] \<longrightarrow>
            fatal out = None \<and> 1 \<le> k \<and> k \<le> length rs \<and> err (rs ! (k - 1)) = None
            \<and> int (length (successes (take k rs))) = sint total'
            \<and> delivered out = [foldl foldResult (result agg_init) (successes (take k rs))]
            \<and> (\<forall>rest. collectResults ctxErr (take k rs @ rest) total' = out))
       \<and> (delivered out \<noteq> [] \<and> int (length rs) \<le> sint total' \<longrightarrow> (\<forall>r\<in>set rs. err r = None))"
proof (cases "1 \<le> sint total' \<and> sint total' \<le> int (length (successes rs))")
  case True
  then have "nat (sint total' - 1) < length (successes rs)" by linarith
  from nth_success_split[OF this] obtain pre r post where
    rs: "rs = pre @ r # post" and r: "err r = None"
    and pre: "length (successes pre) = nat (sint total' - 1)" by blast
  from pre True have n: "sint total' = int (length (successes pre)) + 1" by linarith
  from len rs have len': "int (length pre) + 1 < 2 ^ 63" by simp
  have sent: "collectResults ctxErr (pre @ r # rest) total' =
           \<lparr>delivered = [foldl foldResult (result agg_init) (successes (pre @ [r]))],
            logged = failures pre, received = Suc (length pre), fatal = None\<rparr>" for rest
    using len' r n by (rule collectResults_sent)
  have out: "out = \<lparr>delivered = [foldl foldResult (result agg_init) (successes (pre @ [r]))],
            logged = failures pre, received = Suc (length pre), fatal = None\<rparr>"
    unfolding out_def rs by (rule sent)
  have k: "k = Suc (length pre)" unfolding k_def out[unfolded out_def] by simp
  have tk: "take k rs = pre @ [r]" unfolding k rs by simp
  have nth: "rs ! (k - 1) = r" unfolding k rs by simp
  have cnt: "int (length (successes (take k rs))) = sint total'"
    unfolding tk using r n by simp
  have ext: "\<forall>rest. collectResults ctxErr (take k rs @ rest) total' = out"
    unfolding tk out using sent by simp
  have all: "int (length rs) \<le> sint total' \<longrightarrow> (\<forall>r\<in>set rs. err r = None)"
  proof
    assume "int (length rs) \<le> sint total'"
    with True length_successes_le[of rs] have "length (successes rs) = length rs" by linarith
    then show "\<forall>r\<in>set rs. err r = None" by (rule all_successes_if_length)
  qed
  have d: "delivered out = [foldl foldResult (result agg_init) (successes (take k rs))]"
    "fatal out = None"
    unfolding tk by (simp_all add: out del: successes_simps)
  have kk: "1 \<le> k" "k \<le> length rs" unfolding k rs by simp_all
  from True d kk nth r cnt ext all show ?thesis by simp
next
  case False
  then have "sint total' \<le> 0 \<or> int (length (successes rs)) < sint total'" by linarith
  from collectResults_closed[OF len this, of ctxErr]
  have "delivered out = []" unfolding out_def by simp
  with False show ?thesis by simp
qed

theorem collectResults_delivers_once_at_total_witness:
  "int (length [processPolygon 100 polySquare quiet, PolygonResult_err (FetchError ''status 500''),
                processPolygon 100 polyLight quiet, processPolygon 100 polyNegative quiet]) < 2 ^ 63
   \<and> collectResults None
        [processPolygon 100 polySquare quiet, PolygonResult_err (FetchError ''status 500''),
         processPolygon 100 polyLight quiet, processPolygon 100 polyNegative quiet] 2 =
       \<lparr>delivered = [\<lparr>Bbox = \<lparr>X1 = 0, Y1 = - 3, X2 = 20, Y2 = 10\<rparr>, MaxWeight = 109,
                       HeavyPolygons = [Some polySquare]\<rparr>],
        logged = [FetchError ''status 500''], received = 3, fatal = None\<rparr>
   \<and> (\<forall>rest. collectResults None
        ([processPolygon 100 polySquare quiet, PolygonResult_err (FetchError ''status 500''),
          processPolygon 100 polyLight quiet] @ rest) 2 =
       \<lparr>delivered = [\<lparr>Bbox = \<lparr>X1 = 0, Y1 = - 3, X2 = 20, Y2 = 10\<rparr>, MaxWeight = 109,
                       HeavyPolygons = [Some polySquare]\<rparr>],
        logged = [FetchError ''status 500''], received = 3, fatal = None\<rparr>)
   \<and> int (length [processPolygon 100 polySquare quiet, processPolygon 100 polyLight quiet])
        \<le> sint (2 :: go_int)
   \<and> delivered (collectResults None
        [processPolygon 100 polySquare quiet, processPolygon 100 polyLight quiet] 2) \<noteq> []
   \<and> err (processPolygon 100 polySquare quiet) = None
   \<and> err (processPolygon 100 polyLight quiet) = None"
proof -
  let ?rs = "[processPolygon 100 polySquare quiet, PolygonResult_err (FetchError ''status 500''),
              processPolygon 100 polyLight quiet, processPolygon 100 polyNegative quiet]"
  let ?rs2 = "[processPolygon 100 polySquare quiet, processPolygon 100 polyLight quiet]"
  have len: "int (length ?rs) < 2 ^ 63" by simp
  have len2: "int (length ?rs2) < 2 ^ 63" by simp
  have out: "collectResults None ?rs 2 =
       \<lparr>delivered = [\<lparr>Bbox = \<lparr>X1 = 0, Y1 = - 3, X2 = 20, Y2 = 10\<rparr>, MaxWeight = 109,
                       HeavyPolygons = [Some polySquare]\<rparr>],
        logged = [FetchError ''status 500''], received = 3, fatal = None\<rparr>"
    by (simp add: eval_simps)
  have out2: "delivered (collectResults None ?rs2 2) \<noteq> []"
    by (simp add: eval_simps)
  have le2: "int (length ?rs2) \<le> sint (2 :: go_int)" by simp
  from collectResults_delivers_once_at_total[OF len, of None 2]
  have ext: "\<forall>rest. collectResults None (take 3 ?rs @ rest) 2 = collectResults None ?rs 2"
    unfolding out by simp
  from collectResults_delivers_once_at_total[OF len2, of None 2] out2 le2
  have "\<forall>r\<in>set ?rs2. err r = None" by blast
  then have ok: "err (processPolygon 100 polySquare quiet) = None"
    "err (processPolygon 100 polyLight quiet) = None" by simp_all
  from len out ext out2 le2 ok show ?thesis by simp
qed

subsection \<open>Failure when the stream ends early\<close>

text \<open>
  C7, as amended: when the stream ends with fewer than \<open>total\<close> outcomes processed, no
  Result is sent and the run ends in a failure: with the last error received, if some
  outcome carried an error; otherwise with a timeout failure, if the context is done;
  otherwise with a generic failure that names the number processed and \<open>total\<close>.
\<close>

theorem collectResults_incomplete_failure:
  fixes rs :: "('f::{zero,ord}) PolygonResult list"
  assumes "int (length rs) < 2 ^ 63"
    and "int (length (successes rs)) < sint total'"
  shows "collectResults ctxErr rs total' =
           \<lparr>delivered = [], logged = failures rs, received = length rs,
            fatal =
              Some (if failures rs \<noteq> [] then NotAllProcessed (last (failures rs))
                    else case ctxErr of
                           Some e \<Rightarrow> TimedOut e
                         | None \<Rightarrow> UnknownError (of_nat (length (successes rs))) total')\<rparr>"
proof -
  from assms(2) have "sint total' \<le> 0 \<or> int (length (successes rs)) < sint total'" by simp
  from collectResults_closed[OF assms(1) this, of ctxErr] assms(2)
  show ?thesis by (simp split: option.splits)
qed

theorem collectResults_incomplete_failure_witness:
  "int (length [processPolygon 100 polySquare quiet,
                PolygonResult_err (FetchError ''status 500''), PolygonResult_err DeadlineExceeded])
     < 2 ^ 63
   \<and> int (length (successes [processPolygon 100 polySquare quiet,
                PolygonResult_err (FetchError ''status 500''), PolygonResult_err DeadlineExceeded]))
     < sint (3 :: go_int)
   \<and> collectResults (Some DeadlineExceeded)
        [processPolygon 100 polySquare quiet,
         PolygonResult_err (FetchError ''status 500''), PolygonResult_err DeadlineExceeded] 3 =
       \<lparr>delivered = [], logged = [FetchError ''status 500'', DeadlineExceeded], received = 3,
        fatal = Some (NotAllProcessed DeadlineExceeded)\<rparr>
   \<and> collectResults (Some DeadlineExceeded) [processPolygon 100 polySquare quiet] 3 =
       \<lparr>delivered = [], logged = [], received = 1, fatal = Some (TimedOut DeadlineExceeded)\<rparr>
   \<and> collectResults None [processPolygon 100 polySquare quiet] 3 =
       \<lparr>delivered = [], logged = [], received = 1, fatal = Some (UnknownError 1 3)\<rparr>"
proof -
  let ?ok = "processPolygon 100 polySquare quiet"
  let ?rs = "[?ok, PolygonResult_err (FetchError ''status 500''), PolygonResult_err DeadlineExceeded]"
  have ok: "err ?ok = None" by (simp add: eval_simps)
  have bad: "err (PolygonResult_err e :: int PolygonResult) = Some e" for e
    by (simp add: PolygonResult_err_def)
  have len: "int (length ?rs) < 2 ^ 63" "int (length [?ok]) < 2 ^ 63" by simp_all
  have cnt: "int (length (successes ?rs)) < sint (3 :: go_int)"
    "int (length (successes [?ok])) < sint (3 :: go_int)"
    by (simp_all add: ok bad)
  from collectResults_incomplete_failure[OF len(1) cnt(1), of "Some DeadlineExceeded"]
       collectResults_incomplete_failure[OF len(2) cnt(2), of "Some DeadlineExceeded"]
       collectResults_incomplete_failure[OF len(2) cnt(2), of None]
       len(1) cnt(1)
  show ?thesis by (simp add: ok bad)
qed

text \<open>
  C7 as stated has the first error surfaced. With two failure outcomes the failure
  carries the second one: \<open>processingError\<close> is overwritten by each.
\<close>

theorem collectResults_first_error_counterexample:
  "failures [PolygonResult_err (FetchError ''status 500''), PolygonResult_err DeadlineExceeded
             :: int PolygonResult]
     = [FetchError ''status 500'', DeadlineExceeded]
   \<and> fatal (collectResults (Some DeadlineExceeded)
        [PolygonResult_err (FetchError ''status 500''), PolygonResult_err DeadlineExceeded
         :: int PolygonResult] 2)
     = Some (NotAllProcessed DeadlineExceeded)
   \<and> fatal (collectResults (Some DeadlineExceeded)
        [PolygonResult_err (FetchError ''status 500''), PolygonResult_err DeadlineExceeded
         :: int PolygonResult] 2)
     \<noteq> Some (NotAllProcessed (FetchError ''status 500''))"
  by (simp add: eval_simps)

subsection \<open>Expected total 0\<close>

text \<open>
  C9: with \<open>total = 0\<close> \<open>collectResults\<close> sends no Result, whatever the stream: the
  test \<open>processed == total\<close> comes after the increment. It drains the stream and returns
  without a failure, so the select of \<open>main\<close> can only end by the deadline and no JSON
  is printed.
\<close>

theorem collectResults_total_zero:
  fixes rs :: "('f::{zero,ord}) PolygonResult list"
  assumes "int (length rs) < 2 ^ 63"
  shows "collectResults ctxErr rs 0 =
           \<lparr>delivered = [], logged = failures rs, received = length rs, fatal = None\<rparr>
       \<and> (\<forall>x. mainSelect ctxDone (delivered (collectResults ctxErr rs 0)) x \<longrightarrow> x = ExitTimeout)"
proof -
  have out: "collectResults ctxErr rs 0 =
           \<lparr>delivered = [], logged = failures rs, received = length rs, fatal = None\<rparr>"
    using collectResults_closed[OF assms, of 0 ctxErr] by simp
  have "x = ExitTimeout" if "mainSelect ctxDone (delivered (collectResults ctxErr rs 0)) x" for x
    using that unfolding out by (cases rule: mainSelect.cases) simp_all
  with out show ?thesis by blast
qed

theorem collectResults_total_zero_witness:
  "int (length [processPolygon 100 polySquare quiet, PolygonResult_err (FetchError ''status 500'')])
     < 2 ^ 63
   \<and> collectResults None [] 0 =
       \<lparr>delivered = ([] :: int Result list), logged = [], received = 0, fatal = None\<rparr>
   \<and> collectResults None
        [processPolygon 100 polySquare quiet, PolygonResult_err (FetchError ''status 500'')] 0 =
       \<lparr>delivered = [], logged = [FetchError ''status 500''], received = 2, fatal = None\<rparr>
   \<and> mainSelect True (delivered (collectResults None ([] :: int PolygonResult list) 0)) ExitTimeout
   \<and> \<not> mainSelect True (delivered (collectResults None ([] :: int PolygonResult list) 0))
         (ReceivedResult (result agg_init))"
proof -
  let ?rs = "[processPolygon 100 polySquare quiet, PolygonResult_err (FetchError ''status 500'')]"
  have ok: "err (processPolygon 100 polySquare quiet) = None" by (simp add: eval_simps)
  have bad: "err (PolygonResult_err e :: int PolygonResult) = Some e" for e
    by (simp add: PolygonResult_err_def)
  have len: "int (length ?rs) < 2 ^ 63" "int (length ([] :: int PolygonResult list)) < 2 ^ 63"
    by simp_all
  have tmo: "mainSelect True (delivered (collectResults None ([] :: int PolygonResult list) 0))
      ExitTimeout" by (rule mainSelect.onDone) simp
  from collectResults_total_zero[OF len(1), of None True]
       collectResults_total_zero[OF len(2), of None True] len(1) tmo
  show ?thesis by (auto simp: ok bad)
qed

subsection \<open>The maximum weight starts from 0\<close>

text \<open>
  C2: \<open>max_weight\<close> is to be the largest of the polygons' weights, negative ones
  included. On the single polygon of weight \<open>-1\<close> the code delivers \<open>max_weight = 0\<close>:
  the running maximum starts from 0 and \<open>MaxFloat32 0 (-1)\<close> is 0.
\<close>

theorem collectResults_max_weight_all_negative:
  "weight (processPolygon 100 polyNegative quiet) = - 1
   \<and> collectResults None [processPolygon 100 polyNegative quiet] 1 =
       \<lparr>delivered = [\<lparr>Bbox = \<lparr>X1 = 5, Y1 = 5, X2 = 5, Y2 = 5\<rparr>, MaxWeight = 0,
                       HeavyPolygons = []\<rparr>],
        logged = [], received = 1, fatal = None\<rparr>"
  by (simp add: eval_simps)

subsection \<open>The bounding box of the empty polygon\<close>

text \<open>
  C3: the empty polygon gets weight 0 and is not heavy, but its local box is the zero
  box, which the fold does not ignore: folded into the box \<open>(5,5)-(5,5)\<close> it gives
  \<open>(0,0)-(5,5)\<close>, and a run over the one-point polygon at \<open>(5,5)\<close> and the empty
  polygon delivers that box.
\<close>

theorem collectResults_empty_polygon_widens_bbox:
  "processPolygon 100 \<lparr>Points = []\<rparr> quiet =
       \<lparr>localBbox = \<lparr>X1 = 0, Y1 = 0, X2 = 0, Y2 = 0\<rparr>, weight = 0, isHeavy = False,
        polygon = Some \<lparr>Points = []\<rparr>, err = None\<rparr>
   \<and> Bbox (foldResult \<lparr>Bbox = \<lparr>X1 = 5, Y1 = 5, X2 = 5, Y2 = 5\<rparr>, MaxWeight = 0, HeavyPolygons = []\<rparr>
        (processPolygon (100::int) \<lparr>Points = []\<rparr> quiet)) = \<lparr>X1 = 0, Y1 = 0, X2 = 5, Y2 = 5\<rparr>
   \<and> collectResults None
        [processPolygon 100 polyNegative quiet, processPolygon 100 \<lparr>Points = []\<rparr> quiet] 2 =
       \<lparr>delivered = [\<lparr>Bbox = \<lparr>X1 = 0, Y1 = 0, X2 = 5, Y2 = 5\<rparr>, MaxWeight = 0,
                       HeavyPolygons = []\<rparr>],
        logged = [], received = 2, fatal = None\<rparr>"
  by (simp add: eval_simps)

section \<open>Bounding boxes\<close>

lemma sle_MinInt_MaxInt: "a \<le>s c \<Longrightarrow> MinInt a x \<le>s MaxInt c y"
  by (simp add: word_sle_eq sint_MinInt sint_MaxInt)

lemma sle_MinInt_MaxInt_same: "MinInt a x \<le>s MaxInt c x"
  by (simp add: word_sle_eq sint_MinInt sint_MaxInt le_max_iff_disj min_le_iff_disj)

lemma sle_MinInt_MaxInt_right: "x \<le>s y \<Longrightarrow> MinInt a x \<le>s MaxInt c y"
  by (simp add: word_sle_eq sint_MinInt sint_MaxInt le_max_iff_disj min_le_iff_disj)

lemma valid_box_extendBbox: "valid_box b \<Longrightarrow> valid_box (extendBbox b p)"
  by (simp add: valid_box_def extendBbox_def sle_MinInt_MaxInt)

lemma valid_box_foldl_extendBbox: "valid_box b \<Longrightarrow> valid_box (foldl extendBbox b ps)"
  by (induction ps arbitrary: b) (simp_all add: valid_box_extendBbox)

lemma valid_box_point: "valid_box \<lparr>X1 = x, Y1 = y, X2 = x, Y2 = y\<rparr>"
  by (simp add: valid_box_def)

lemma valid_box_foldResult_local:
  "valid_box (localBbox pr) \<Longrightarrow> valid_box (Bbox (foldResult res pr))"
  by (simp add: valid_box_def foldResult_def sle_MinInt_MaxInt_right)

lemma valid_box_foldResult_global:
  "valid_box (Bbox res) \<Longrightarrow> valid_box (Bbox (foldResult res pr))"
  by (simp add: valid_box_def foldResult_def sle_MinInt_MaxInt)

lemma collectLoop_Sent_valid:
  "collectLoop total' s rs = Sent s' \<Longrightarrow>
   (\<forall>pr\<in>set rs. err pr = None \<longrightarrow> valid_box (localBbox pr)) \<Longrightarrow>
     valid_box (Bbox (result s'))"
proof (induction rs arbitrary: s)
  case Nil
  then show ?case by simp
next
  case (Cons r rs)
  show ?case
  proof (cases "err r = None \<and> processed s + 1 = total'")
    case True
    with Cons.prems(1) have s': "s' = absorb s r"
      by (simp add: collectLoop_Cons del: collectLoop.simps)
    from True have "result (absorb s r) = foldResult (result s) r" by (simp add: absorb_def)
    moreover from True Cons.prems(2) have "valid_box (localBbox r)" by simp
    ultimately show ?thesis unfolding s' by (simp add: valid_box_foldResult_local)
  next
    case False
    with Cons.prems(1) have "collectLoop total' (absorb s r) rs = Sent s'"
      by (simp add: collectLoop_Cons del: collectLoop.simps)
    moreover from Cons.prems(2) have "\<forall>pr\<in>set rs. err pr = None \<longrightarrow> valid_box (localBbox pr)"
      by simp
    ultimately show ?thesis by (rule Cons.IH)
  qed
qed

lemma collectResults_delivered_valid:
  assumes "delivered (collectResults ctxErr rs total') = [res]"
    and "\<forall>pr\<in>set rs. err pr = None \<longrightarrow> valid_box (localBbox pr)"
  shows "valid_box (Bbox res)"
proof (cases "collectLoop total' agg_init rs")
  case (Sent s')
  with assms(1) have "res = result s'" by (simp add: collectResults_def)
  with collectLoop_Sent_valid[OF Sent assms(2)] show ?thesis by simp
next
  case (Closed s')
  with assms(1) show ?thesis by (simp add: collectResults_def)
qed

subsection \<open>The corners of a bounding box are ordered\<close>

text \<open>
  C8: the local box of a success outcome of \<open>processPolygon\<close> on a non-empty point
  sequence has \<open>X1 \<le> X2\<close> and \<open>Y1 \<le> Y2\<close> (signed order). In \<open>collectResults\<close>, folding
  an outcome whose local box is ordered gives an ordered global box, whatever the
  global box was, and every later fold keeps it ordered; so a Result delivered from a
  stream whose success outcomes have ordered local boxes has an ordered box.
\<close>

theorem bbox_corners_ordered:
  fixes poly :: "('f::{zero,plus,ord}) Polygon" and rs :: "'f PolygonResult list"
  shows "(Points poly \<noteq> [] \<and> err (processPolygon c100 poly ctx) = None \<longrightarrow>
            valid_box (localBbox (processPolygon c100 poly ctx)))
       \<and> (valid_box (localBbox pr) \<longrightarrow> valid_box (Bbox (foldResult res pr)))
       \<and> (valid_box (Bbox res') \<longrightarrow> valid_box (Bbox (foldResult res' pr')))
       \<and> (delivered (collectResults ctxErr rs total') = [final]
            \<and> (\<forall>pr\<in>set rs. err pr = None \<longrightarrow> valid_box (localBbox pr)) \<longrightarrow>
            valid_box (Bbox final))"
proof -
  have a: "valid_box (localBbox (processPolygon c100 poly ctx))"
    if "Points poly \<noteq> []" "err (processPolygon c100 poly ctx) = None"
  proof (cases rule: processPolygon_cases[where poly=poly and ?c100.0=c100 and ctx=ctx])
    case empty
    with that show ?thesis by simp
  next
    case (cancelled e i)
    from cancelled(4) that(2) show ?thesis by (simp add: PolygonResult_err_def)
  next
    case (complete p0 ps)
    from complete(3) show ?thesis
      by (simp only: PolygonResult.simps valid_box_foldl_extendBbox[OF valid_box_point])
  qed
  show ?thesis
    using a valid_box_foldResult_local[of pr res] valid_box_foldResult_global[of res' pr']
      collectResults_delivered_valid[of ctxErr rs total' final]
    by blast
qed

theorem bbox_corners_ordered_witness:
  "Points polySquare \<noteq> [] \<and> err (processPolygon 100 polySquare quiet) = None
   \<and> valid_box (localBbox (processPolygon 100 polySquare quiet))
   \<and> \<not> valid_box (Bbox (result (agg_init :: int agg)))
   \<and> valid_box (Bbox (foldResult (result agg_init) (processPolygon 100 polySquare quiet)))
   \<and> valid_box (Bbox (foldResult (foldResult (result agg_init) (processPolygon 100 polySquare quiet))
        (processPolygon 100 polyLight quiet)))
   \<and> delivered (collectResults None
        [processPolygon 100 polySquare quiet, processPolygon 100 polyLight quiet] 2) =
        [\<lparr>Bbox = \<lparr>X1 = 0, Y1 = - 3, X2 = 20, Y2 = 10\<rparr>, MaxWeight = 109,
          HeavyPolygons = [Some polySquare]\<rparr>]
   \<and> valid_box \<lparr>X1 = 0, Y1 = - 3, X2 = 20, Y2 = 10\<rparr>"
proof -
  let ?sq = "processPolygon (100::int) polySquare quiet"
  let ?li = "processPolygon (100::int) polyLight quiet"
  let ?final = "\<lparr>Bbox = \<lparr>X1 = 0, Y1 = - 3, X2 = 20, Y2 = 10\<rparr>, MaxWeight = 109::int,
          HeavyPolygons = [Some polySquare]\<rparr>"
  have ne: "Points polySquare \<noteq> []" "Points polyLight \<noteq> []"
    by (simp_all add: polySquare_def polyLight_def)
  have ok: "err ?sq = None" "err ?li = None" by (simp_all add: eval_simps)
  have init: "\<not> valid_box (Bbox (result (agg_init :: int agg)))"
    by (simp add: valid_box_def agg_init_def math_MaxInt_def math_MinInt_def word_sle_eq)
  have run: "delivered (collectResults None [?sq, ?li] 2) = [?final]"
    by (simp add: eval_simps)
  have v1: "valid_box (localBbox ?sq)"
    using bbox_corners_ordered[of polySquare 100 quiet] ne ok by blast
  have v1': "valid_box (localBbox ?li)"
    using bbox_corners_ordered[of polyLight 100 quiet] ne ok by blast
  have v2: "valid_box (Bbox (foldResult (result agg_init) ?sq))"
    using bbox_corners_ordered[where pr = ?sq and res = "result agg_init"] v1 by blast
  have v3: "valid_box (Bbox (foldResult (foldResult (result agg_init) ?sq) ?li))"
    using bbox_corners_ordered[where res' = "foldResult (result agg_init) ?sq" and pr' = ?li] v2
    by blast
  have "valid_box (Bbox ?final)"
    using bbox_corners_ordered[where rs = "[?sq, ?li]" and ctxErr = None and total' = 2
        and final = ?final and poly = polySquare and ?c100.0 = 100 and ctx = quiet
        and pr = ?sq and res = "result agg_init" and res' = "result agg_init" and pr' = ?sq]
      run v1 v1' ok by simp
  then have v4: "valid_box \<lparr>X1 = 0, Y1 = - 3, X2 = 20, Y2 = 10\<rparr>" by simp
  from ne(1) ok(1) v1 init v2 v3 run v4 show ?thesis by simp
qed

lemma Min_insert_min:
  fixes a b :: int
  assumes "finite S"
  shows "Min (insert (min a b) S) = Min (insert a (insert b S))"
proof (cases "S = {}")
  case True
  then show ?thesis by simp
next
  case False
  with assms show ?thesis by (simp add: min.assoc)
qed

lemma Max_insert_max:
  fixes a b :: int
  assumes "finite S"
  shows "Max (insert (max a b) S) = Max (insert a (insert b S))"
proof (cases "S = {}")
  case True
  then show ?thesis by simp
next
  case False
  with assms show ?thesis by (simp add: max.assoc)
qed

lemma Min_of_Mins:
  fixes A :: "'i \<Rightarrow> int set"
  assumes I: "finite I" "I \<noteq> {}"
    and A: "\<forall>i\<in>I. finite (A i) \<and> A i \<noteq> {}"
    and M: "\<forall>i\<in>I. \<forall>a\<in>A i. a \<le> M"
  shows "Min (insert M ((\<lambda>i. Min (A i)) ` I)) = Min (\<Union>i\<in>I. A i)"
proof (rule Min_eqI)
  let ?U = "\<Union>i\<in>I. A i"
  have fin: "finite ?U" using I A by blast
  have ne: "?U \<noteq> {}" using I A by blast
  from Min_in[OF fin ne] obtain i where i: "i \<in> I" "Min ?U \<in> A i" by blast
  show "finite (insert M ((\<lambda>i. Min (A i)) ` I))" using I by simp
  show "Min ?U \<le> y" if "y \<in> insert M ((\<lambda>i. Min (A i)) ` I)" for y
  proof (cases "y = M")
    case True
    with i M show ?thesis by blast
  next
    case False
    with that obtain j where j: "j \<in> I" "y = Min (A j)" by blast
    with A have "Min (A j) \<in> A j" by (intro Min_in) blast+
    with j have "y \<in> ?U" by blast
    with fin show ?thesis by (rule Min_le)
  qed
  have "Min (A i) \<le> Min ?U" using A i by (intro Min_le) blast+
  moreover have "Min (A i) \<in> ?U" using A i Min_in[of "A i"] by blast
  then have "Min ?U \<le> Min (A i)" using fin by (intro Min_le)
  ultimately have "Min ?U = Min (A i)" by simp
  with i show "Min ?U \<in> insert M ((\<lambda>i. Min (A i)) ` I)" by blast
qed

lemma Max_of_Maxs:
  fixes A :: "'i \<Rightarrow> int set"
  assumes I: "finite I" "I \<noteq> {}"
    and A: "\<forall>i\<in>I. finite (A i) \<and> A i \<noteq> {}"
    and M: "\<forall>i\<in>I. \<forall>a\<in>A i. M \<le> a"
  shows "Max (insert M ((\<lambda>i. Max (A i)) ` I)) = Max (\<Union>i\<in>I. A i)"
proof (rule Max_eqI)
  let ?U = "\<Union>i\<in>I. A i"
  have fin: "finite ?U" using I A by blast
  have ne: "?U \<noteq> {}" using I A by blast
  from Max_in[OF fin ne] obtain i where i: "i \<in> I" "Max ?U \<in> A i" by blast
  show "finite (insert M ((\<lambda>i. Max (A i)) ` I))" using I by simp
  show "y \<le> Max ?U" if "y \<in> insert M ((\<lambda>i. Max (A i)) ` I)" for y
  proof (cases "y = M")
    case True
    with i M show ?thesis by blast
  next
    case False
    with that obtain j where j: "j \<in> I" "y = Max (A j)" by blast
    with A have "Max (A j) \<in> A j" by (intro Max_in) blast+
    with j have "y \<in> ?U" by blast
    with fin show ?thesis by (rule Max_ge)
  qed
  have "Max ?U \<le> Max (A i)" using A i by (intro Max_ge) blast+
  moreover have "Max (A i) \<in> ?U" using A i Max_in[of "A i"] by blast
  then have "Max (A i) \<le> Max ?U" using fin by (intro Max_ge)
  ultimately have "Max ?U = Max (A i)" by simp
  with i show "Max ?U \<in> insert M ((\<lambda>i. Max (A i)) ` I)" by blast
qed

text \<open>The corners of a box widened by a list of points, read as integers.\<close>

lemma foldl_extendBbox_X1:
  "sint (X1 (foldl extendBbox b ps)) = Min (insert (sint (X1 b)) ((\<lambda>p. sint (X p)) ` set ps))"
  by (induction ps arbitrary: b)
     (simp_all add: extendBbox_def sint_MinInt Min_insert_min insert_commute)

lemma foldl_extendBbox_Y1:
  "sint (Y1 (foldl extendBbox b ps)) = Min (insert (sint (Y1 b)) ((\<lambda>p. sint (Y p)) ` set ps))"
  by (induction ps arbitrary: b)
     (simp_all add: extendBbox_def sint_MinInt Min_insert_min insert_commute)

lemma foldl_extendBbox_X2:
  "sint (X2 (foldl extendBbox b ps)) = Max (insert (sint (X2 b)) ((\<lambda>p. sint (X p)) ` set ps))"
  by (induction ps arbitrary: b)
     (simp_all add: extendBbox_def sint_MaxInt Max_insert_max insert_commute)

lemma foldl_extendBbox_Y2:
  "sint (Y2 (foldl extendBbox b ps)) = Max (insert (sint (Y2 b)) ((\<lambda>p. sint (Y p)) ` set ps))"
  by (induction ps arbitrary: b)
     (simp_all add: extendBbox_def sint_MaxInt Max_insert_max insert_commute)

lemma foldl_foldResult_X1:
  "sint (X1 (Bbox (foldl foldResult res rs))) =
     Min (insert (sint (X1 (Bbox res))) ((\<lambda>r. sint (X1 (localBbox r))) ` set rs))"
  by (induction rs arbitrary: res)
     (simp_all add: foldResult_def sint_MinInt Min_insert_min insert_commute)

lemma foldl_foldResult_Y1:
  "sint (Y1 (Bbox (foldl foldResult res rs))) =
     Min (insert (sint (Y1 (Bbox res))) ((\<lambda>r. sint (Y1 (localBbox r))) ` set rs))"
  by (induction rs arbitrary: res)
     (simp_all add: foldResult_def sint_MinInt Min_insert_min insert_commute)

lemma foldl_foldResult_X2:
  "sint (X2 (Bbox (foldl foldResult res rs))) =
     Max (insert (sint (X2 (Bbox res))) ((\<lambda>r. sint (X2 (localBbox r))) ` set rs))"
  by (induction rs arbitrary: res)
     (simp_all add: foldResult_def sint_MaxInt Max_insert_max insert_commute)

lemma foldl_foldResult_Y2:
  "sint (Y2 (Bbox (foldl foldResult res rs))) =
     Max (insert (sint (Y2 (Bbox res))) ((\<lambda>r. sint (Y2 (localBbox r))) ` set rs))"
  by (induction rs arbitrary: res)
     (simp_all add: foldResult_def sint_MaxInt Max_insert_max insert_commute)

lemma processPolygon_local_box:
  fixes poly :: "('f::{zero,plus,ord}) Polygon"
  assumes "Points poly \<noteq> []" and "err (processPolygon c100 poly ctx) = None"
  shows "sint (X1 (localBbox (processPolygon c100 poly ctx))) = Min ((\<lambda>p. sint (X p)) ` set (Points poly))"
    and "sint (Y1 (localBbox (processPolygon c100 poly ctx))) = Min ((\<lambda>p. sint (Y p)) ` set (Points poly))"
    and "sint (X2 (localBbox (processPolygon c100 poly ctx))) = Max ((\<lambda>p. sint (X p)) ` set (Points poly))"
    and "sint (Y2 (localBbox (processPolygon c100 poly ctx))) = Max ((\<lambda>p. sint (Y p)) ` set (Points poly))"
proof -
  obtain p0 ps where pts: "Points poly = p0 # ps"
    and box: "localBbox (processPolygon c100 poly ctx) =
      foldl extendBbox \<lparr>X1 = X p0, Y1 = Y p0, X2 = X p0, Y2 = Y p0\<rparr> (p0 # ps)"
  proof (cases rule: processPolygon_cases[where poly=poly and ?c100.0=c100 and ctx=ctx])
    case empty
    with assms(1) show ?thesis by simp
  next
    case (cancelled e i)
    from cancelled(4) assms(2) show ?thesis by (simp add: PolygonResult_err_def)
  next
    case (complete p0 ps)
    from complete(3) have "localBbox (processPolygon c100 poly ctx) =
      foldl extendBbox \<lparr>X1 = X p0, Y1 = Y p0, X2 = X p0, Y2 = Y p0\<rparr> (p0 # ps)"
      by (simp only: PolygonResult.simps)
    with complete(1) show ?thesis by (rule that)
  qed
  have ix: "insert (sint (X p0)) ((\<lambda>p. sint (X p)) ` set (p0 # ps)) = (\<lambda>p. sint (X p)) ` set (p0 # ps)"
    and iy: "insert (sint (Y p0)) ((\<lambda>p. sint (Y p)) ` set (p0 # ps)) = (\<lambda>p. sint (Y p)) ` set (p0 # ps)"
    by auto
  show "sint (X1 (localBbox (processPolygon c100 poly ctx))) = Min ((\<lambda>p. sint (X p)) ` set (Points poly))"
    unfolding box foldl_extendBbox_X1 pts by (simp only: Bbox.simps ix)
  show "sint (Y1 (localBbox (processPolygon c100 poly ctx))) = Min ((\<lambda>p. sint (Y p)) ` set (Points poly))"
    unfolding box foldl_extendBbox_Y1 pts by (simp only: Bbox.simps iy)
  show "sint (X2 (localBbox (processPolygon c100 poly ctx))) = Max ((\<lambda>p. sint (X p)) ` set (Points poly))"
    unfolding box foldl_extendBbox_X2 pts by (simp only: Bbox.simps ix)
  show "sint (Y2 (localBbox (processPolygon c100 poly ctx))) = Max ((\<lambda>p. sint (Y p)) ` set (Points poly))"
    unfolding box foldl_extendBbox_Y2 pts by (simp only: Bbox.simps iy)
qed

lemma successes_all: "\<forall>r\<in>set rs. err r = None \<Longrightarrow> successes rs = rs"
  by (simp add: successes_def)

lemma failures_none: "\<forall>r\<in>set rs. err r = None \<Longrightarrow> failures rs = []"
  by (induction rs) simp_all

text \<open>A stream of \<open>total\<close> success outcomes is folded whole into the one Result sent.\<close>

lemma collectResults_all_success:
  fixes rs :: "('f::{zero,ord}) PolygonResult list"
  assumes ne: "rs \<noteq> []" and len: "int (length rs) < 2 ^ 63"
    and ok: "\<forall>r\<in>set rs. err r = None"
  shows "collectResults ctxErr rs (of_nat (length rs)) =
           \<lparr>delivered = [foldl foldResult (result agg_init) rs], logged = [],
            received = length rs, fatal = None\<rparr>"
proof -
  from ne have rs: "rs = butlast rs @ last rs # []" by simp
  have okp: "\<forall>r\<in>set (butlast rs). err r = None" using ok by (meson in_set_butlastD)
  have okl: "err (last rs) = None" using ok ne by simp
  have lp: "length (butlast rs) + 1 = length rs" using ne by simp
  have "sint (0 + of_nat (length rs) :: go_int) = sint (0 :: go_int) + int (length rs)"
    using len by (intro sint_add_nat) simp_all
  then have n: "sint (of_nat (length rs) :: go_int) = int (length (successes (butlast rs))) + 1"
    using lp by (simp add: successes_all[OF okp])
  have len': "int (length (butlast rs)) + 1 < 2 ^ 63" using len lp by linarith
  have fl: "failures (butlast rs) = []"
    using okp by (rule failures_none)
  have "collectResults ctxErr (butlast rs @ last rs # []) (of_nat (length rs)) =
           \<lparr>delivered = [foldl foldResult (result agg_init) (successes (butlast rs @ [last rs]))],
            logged = failures (butlast rs), received = Suc (length (butlast rs)), fatal = None\<rparr>"
    using len' okl n by (rule collectResults_sent)
  moreover have "successes (butlast rs @ [last rs]) = rs"
    unfolding append_butlast_last_id[OF ne] using ok by (rule successes_all)
  ultimately show ?thesis using lp fl by (simp only: rs[symmetric]) simp
qed

subsection \<open>The global bounding box\<close>

text \<open>
  C1: \<open>calls\<close> are the \<open>N \<ge> 1\<close> polygons of a run, each with the cancellation context
  its worker observes; every polygon is non-empty and every outcome is a success. Then,
  in whatever order the outcomes arrive (\<open>arrivals\<close> is any permutation of them),
  \<open>collectResults\<close> with \<open>total = N\<close> sends one Result, whose box has for \<open>x1\<close>, \<open>y1\<close> the
  least and for \<open>x2\<close>, \<open>y2\<close> the greatest \<open>x\<close> and \<open>y\<close> over all points of all polygons.
\<close>

theorem global_bbox_is_min_max_of_all_points:
  fixes calls :: "(('f::{zero,plus,ord}) Polygon \<times> (nat \<Rightarrow> error option)) list"
    and arrivals :: "'f PolygonResult list"
  assumes ne: "calls \<noteq> []" and len: "int (length calls) < 2 ^ 63"
    and ok: "\<forall>c\<in>set calls. Points (fst c) \<noteq> [] \<and> err (processPolygon c100 (fst c) (snd c)) = None"
    and arr: "mset arrivals = mset (map (\<lambda>c. processPolygon c100 (fst c) (snd c)) calls)"
  shows "\<exists>res. delivered (collectResults ctxErr arrivals (of_nat (length calls))) = [res]
       \<and> sint (X1 (Bbox res)) = Min (\<Union>c\<in>set calls. (\<lambda>p. sint (X p)) ` set (Points (fst c)))
       \<and> sint (Y1 (Bbox res)) = Min (\<Union>c\<in>set calls. (\<lambda>p. sint (Y p)) ` set (Points (fst c)))
       \<and> sint (X2 (Bbox res)) = Max (\<Union>c\<in>set calls. (\<lambda>p. sint (X p)) ` set (Points (fst c)))
       \<and> sint (Y2 (Bbox res)) = Max (\<Union>c\<in>set calls. (\<lambda>p. sint (Y p)) ` set (Points (fst c)))"
proof -
  let ?f = "\<lambda>c. processPolygon c100 (fst c) (snd c)"
  let ?res = "foldl foldResult (result agg_init) arrivals"
  let ?AX = "\<lambda>c. (\<lambda>p. sint (X p)) ` set (Points (fst c))"
  let ?AY = "\<lambda>c. (\<lambda>p. sint (Y p)) ` set (Points (fst c))"
  from arr have "set arrivals = set (map ?f calls)" by (rule mset_eq_setD)
  then have set_arr: "set arrivals = ?f ` set calls" by (simp only: set_map)
  from arr have "length arrivals = length (map ?f calls)" by (rule mset_eq_length)
  then have len_arr: "length arrivals = length calls" by (simp only: length_map)
  have ok_arr: "\<forall>r\<in>set arrivals. err r = None" unfolding set_arr using ok by simp
  have "arrivals \<noteq> []" using ne len_arr by auto
  then have run: "collectResults ctxErr arrivals (of_nat (length arrivals)) =
           \<lparr>delivered = [?res], logged = [], received = length arrivals, fatal = None\<rparr>"
    using len ok_arr unfolding len_arr[symmetric] by (rule collectResults_all_success)
  have I: "finite (set calls)" "set calls \<noteq> {}" using ne by simp_all
  have AX: "\<forall>c\<in>set calls. finite (?AX c) \<and> ?AX c \<noteq> {}" using ok by simp
  have AY: "\<forall>c\<in>set calls. finite (?AY c) \<and> ?AY c \<noteq> {}" using ok by simp
  have hiX: "\<forall>c\<in>set calls. \<forall>a\<in>?AX c. a \<le> sint math_MaxInt"
    using sint_le_math_MaxInt by blast
  have hiY: "\<forall>c\<in>set calls. \<forall>a\<in>?AY c. a \<le> sint math_MaxInt"
    using sint_le_math_MaxInt by blast
  have loX: "\<forall>c\<in>set calls. \<forall>a\<in>?AX c. sint math_MinInt \<le> a"
    using sint_ge_math_MinInt by blast
  have loY: "\<forall>c\<in>set calls. \<forall>a\<in>?AY c. sint math_MinInt \<le> a"
    using sint_ge_math_MinInt by blast
  have init: "X1 (Bbox (result (agg_init :: 'f agg))) = math_MaxInt"
    "Y1 (Bbox (result (agg_init :: 'f agg))) = math_MaxInt"
    "X2 (Bbox (result (agg_init :: 'f agg))) = math_MinInt"
    "Y2 (Bbox (result (agg_init :: 'f agg))) = math_MinInt"
    by (simp_all add: agg_init_def)
  have imX1: "(\<lambda>r. sint (X1 (localBbox r))) ` set arrivals = (\<lambda>c. Min (?AX c)) ` set calls"
    unfolding set_arr image_image
    using ok by (intro image_cong refl) (simp add: processPolygon_local_box(1))
  have imY1: "(\<lambda>r. sint (Y1 (localBbox r))) ` set arrivals = (\<lambda>c. Min (?AY c)) ` set calls"
    unfolding set_arr image_image
    using ok by (intro image_cong refl) (simp add: processPolygon_local_box(2))
  have imX2: "(\<lambda>r. sint (X2 (localBbox r))) ` set arrivals = (\<lambda>c. Max (?AX c)) ` set calls"
    unfolding set_arr image_image
    using ok by (intro image_cong refl) (simp add: processPolygon_local_box(3))
  have imY2: "(\<lambda>r. sint (Y2 (localBbox r))) ` set arrivals = (\<lambda>c. Max (?AY c)) ` set calls"
    unfolding set_arr image_image
    using ok by (intro image_cong refl) (simp add: processPolygon_local_box(4))
  have x1: "sint (X1 (Bbox ?res)) = Min (\<Union>c\<in>set calls. ?AX c)"
    unfolding foldl_foldResult_X1 init imX1 using I AX hiX by (rule Min_of_Mins)
  have y1: "sint (Y1 (Bbox ?res)) = Min (\<Union>c\<in>set calls. ?AY c)"
    unfolding foldl_foldResult_Y1 init imY1 using I AY hiY by (rule Min_of_Mins)
  have x2: "sint (X2 (Bbox ?res)) = Max (\<Union>c\<in>set calls. ?AX c)"
    unfolding foldl_foldResult_X2 init imX2 using I AX loX by (rule Max_of_Maxs)
  have y2: "sint (Y2 (Bbox ?res)) = Max (\<Union>c\<in>set calls. ?AY c)"
    unfolding foldl_foldResult_Y2 init imY2 using I AY loY by (rule Max_of_Maxs)
  from run have "delivered (collectResults ctxErr arrivals (of_nat (length calls))) = [?res]"
    unfolding len_arr by simp
  with x1 y1 x2 y2 show ?thesis by blast
qed

theorem global_bbox_is_min_max_of_all_points_witness:
  "[(polySquare, quiet), (polyLight, quiet)] \<noteq> []
   \<and> int (length [(polySquare, quiet), (polyLight, quiet)]) < 2 ^ 63
   \<and> Points polySquare \<noteq> [] \<and> err (processPolygon 100 polySquare quiet) = None
   \<and> Points polyLight \<noteq> [] \<and> err (processPolygon 100 polyLight quiet) = None
   \<and> mset [processPolygon 100 polyLight quiet, processPolygon 100 polySquare quiet] =
       mset (map (\<lambda>c. processPolygon 100 (fst c) (snd c)) [(polySquare, quiet), (polyLight, quiet)])
   \<and> map Bbox (delivered (collectResults None
        [processPolygon 100 polyLight quiet, processPolygon 100 polySquare quiet] 2)) =
       [\<lparr>X1 = 0, Y1 = - 3, X2 = 20, Y2 = 10\<rparr>]
   \<and> Min (\<Union>c\<in>set [(polySquare, quiet), (polyLight, quiet)].
          (\<lambda>p. sint (X p)) ` set (Points (fst c))) = 0
   \<and> Min (\<Union>c\<in>set [(polySquare, quiet), (polyLight, quiet)].
          (\<lambda>p. sint (Y p)) ` set (Points (fst c))) = - 3
   \<and> Max (\<Union>c\<in>set [(polySquare, quiet), (polyLight, quiet)].
          (\<lambda>p. sint (X p)) ` set (Points (fst c))) = 20
   \<and> Max (\<Union>c\<in>set [(polySquare, quiet), (polyLight, quiet)].
          (\<lambda>p. sint (Y p)) ` set (Points (fst c))) = 10"
proof -
  let ?calls = "[(polySquare, quiet), (polyLight, quiet)]"
  let ?arrivals = "[processPolygon 100 polyLight quiet, processPolygon 100 polySquare quiet]"
  have ne: "?calls \<noteq> []" by simp
  have len: "int (length ?calls) < 2 ^ 63" by simp
  have pts: "Points polySquare \<noteq> []" "Points polyLight \<noteq> []"
    by (simp_all add: polySquare_def polyLight_def)
  have errs: "err (processPolygon 100 polySquare quiet) = None"
    "err (processPolygon 100 polyLight quiet) = None"
    by (simp_all add: eval_simps)
  have ok: "\<forall>c\<in>set ?calls. Points (fst c) \<noteq> [] \<and> err (processPolygon 100 (fst c) (snd c)) = None"
    using pts errs by simp
  have arr: "mset ?arrivals = mset (map (\<lambda>c. processPolygon 100 (fst c) (snd c)) ?calls)"
    by (simp add: add.commute)
  have run: "delivered (collectResults None ?arrivals 2) =
      [\<lparr>Bbox = \<lparr>X1 = 0, Y1 = - 3, X2 = 20, Y2 = 10\<rparr>, MaxWeight = 109,
        HeavyPolygons = [Some polySquare]\<rparr>]"
    by (simp add: eval_simps)
  from global_bbox_is_min_max_of_all_points[OF ne len ok arr, of None]
  obtain res where res: "delivered (collectResults None ?arrivals (of_nat (length ?calls))) = [res]"
    and x1: "sint (X1 (Bbox res)) = Min (\<Union>c\<in>set ?calls. (\<lambda>p. sint (X p)) ` set (Points (fst c)))"
    and y1: "sint (Y1 (Bbox res)) = Min (\<Union>c\<in>set ?calls. (\<lambda>p. sint (Y p)) ` set (Points (fst c)))"
    and x2: "sint (X2 (Bbox res)) = Max (\<Union>c\<in>set ?calls. (\<lambda>p. sint (X p)) ` set (Points (fst c)))"
    and y2: "sint (Y2 (Bbox res)) = Max (\<Union>c\<in>set ?calls. (\<lambda>p. sint (Y p)) ` set (Points (fst c)))"
    by blast
  from res run have r: "res = \<lparr>Bbox = \<lparr>X1 = 0, Y1 = - 3, X2 = 20, Y2 = 10\<rparr>, MaxWeight = 109,
        HeavyPolygons = [Some polySquare]\<rparr>" by simp
  from x1 y1 x2 y2 ne len pts errs arr run show ?thesis unfolding r by simp
qed

end
